theory Spec2Isabelle
  imports Main "HOL-Library.Word" "HOL-Library.Sublist" "HOL-Library.AList"
begin

section \<open>tiff2pdf: signature validator, single-file converter, batch pipeline\<close>

text \<open>
  A shallow embedding of \<^verbatim>\<open>src/tiff2pdf.py\<close>. Python strings are \<open>string\<close>, the
  contents of a file are a list of bytes, exceptions are values of \<open>error\<close>, and
  the file system and the console are an explicit \<open>world\<close> that every operation
  takes and returns, also when it raises.
\<close>

subsection \<open>Data model\<close>

type_synonym byte = "8 word"
type_synonym path = string

text \<open>\<^verbatim>\<open>sys.byteorder\<close> is either \<^verbatim>\<open>"little"\<close> or \<^verbatim>\<open>"big"\<close>.\<close>

datatype endian = Little | Big

text \<open>
  The exceptions that the script can raise: \<^verbatim>\<open>open\<close> and \<^verbatim>\<open>os.remove\<close> on a
  missing path, the \<^verbatim>\<open>raise Exception(...)\<close> of line 102 with its message,
  an index out of range (\<^verbatim>\<open>sys.argv[1]\<close>, \<^verbatim>\<open>images[0]\<close>), and any
  failure inside PIL or PyPDF2, tagged with the path being processed.
\<close>

datatype error =
    FileNotFoundError path
  | PyException string
  | IndexError
  | CodecError path

text \<open>
  The file system is an association list from full paths to contents; its order
  stands for the order of the directory table, which is the order
  \<^verbatim>\<open>os.listdir\<close> reports. Only regular files are modelled. \<open>stdout\<close> collects
  the lines printed.
\<close>

record world =
  files :: "(path \<times> byte list) list"
  stdout :: "string list"

definition lookup :: "world \<Rightarrow> path \<Rightarrow> byte list option" where
  "lookup w p = map_of (files w) p"

definition exists :: "world \<Rightarrow> path \<Rightarrow> bool" where
  "exists w p = (lookup w p \<noteq> None)"

definition write_file :: "path \<Rightarrow> byte list \<Rightarrow> world \<Rightarrow> world" where
  "write_file p bs w = w\<lparr>files := AList.update p bs (files w)\<rparr>"

definition print :: "string \<Rightarrow> world \<Rightarrow> world" where
  "print s w = w\<lparr>stdout := stdout w @ [s]\<rparr>"

text \<open>\<^verbatim>\<open>os.remove\<close>: raises when the path is not there.\<close>

definition os_remove :: "path \<Rightarrow> world \<Rightarrow> (error + unit) \<times> world" where
  "os_remove p w =
     (if exists w p then (Inr (), w\<lparr>files := AList.delete p (files w)\<rparr>)
      else (Inl (FileNotFoundError p), w))"

text \<open>\<^verbatim>\<open>os.path.join\<close> on a POSIX host, for two components.\<close>

definition path_join :: "path \<Rightarrow> string \<Rightarrow> path" where
  "path_join a b =
     (if prefix ''/'' b then b
      else if a = [] \<or> suffix ''/'' a then a @ b
      else a @ ''/'' @ b)"

text \<open>
  \<^verbatim>\<open>os.listdir\<close>: the names of the entries directly inside directory \<open>d\<close>, in
  directory order.
\<close>

definition entry_name :: "path \<Rightarrow> path \<Rightarrow> string option" where
  "entry_name d p =
     (let n = drop (length d + 1) p
      in if prefix (d @ ''/'') p \<and> n \<noteq> [] \<and> CHR ''/'' \<notin> set n then Some n else None)"

definition listdir :: "path \<Rightarrow> world \<Rightarrow> string list" where
  "listdir d w = List.map_filter (entry_name d) (map fst (files w))"

subsection \<open>Python string operations\<close>

text \<open>
  \<^verbatim>\<open>s.replace(old, new)\<close>: every non-overlapping occurrence of \<open>old\<close>, found
  from the left, is replaced. With an empty \<open>old\<close>, \<open>new\<close> is put before every
  character and at the end.
\<close>

function py_replace :: "string \<Rightarrow> string \<Rightarrow> string \<Rightarrow> string" where
  "py_replace old new s =
     (if old = [] then new @ concat (map (\<lambda>c. c # new) s)
      else if s = [] then []
      else if prefix old s then new @ py_replace old new (drop (length old) s)
      else hd s # py_replace old new (tl s))"
  by pat_completeness auto
termination
  by (relation "measure (\<lambda>(old, new, s). length s)") auto

declare py_replace.simps [simp del]

text \<open>
  Lower-casing of ASCII text: the letters A to Z are mapped, every other
  character is kept. On text made of ASCII characters this is \<^verbatim>\<open>str.lower\<close>;
  it is used only by the stand-in of the external capabilities below.
\<close>

definition ascii_lower_char :: "char \<Rightarrow> char" where
  "ascii_lower_char c =
     (let n = (of_char c :: nat)
      in if 65 \<le> n \<and> n \<le> 90 then char_of (n + 32) else c)"

definition ascii_lower :: "string \<Rightarrow> string" where
  "ascii_lower s = map ascii_lower_char s"

subsection \<open>Signature validator (\<^verbatim>\<open>check_hex\<close>, lines 35-70)\<close>

text \<open>\<^verbatim>\<open>binascii.hexlify\<close>: two lower-case hexadecimal digits for each byte.\<close>

definition hexdigit :: "nat \<Rightarrow> char" where
  "hexdigit n = ''0123456789abcdef'' ! (n mod 16)"

definition hex_byte :: "byte \<Rightarrow> string" where
  "hex_byte b = [hexdigit (unat b div 16), hexdigit (unat b mod 16)]"

definition hexlify :: "byte list \<Rightarrow> string" where
  "hexlify bs = concat (map hex_byte bs)"

text \<open>
  \<^verbatim>\<open>str\<close> of a bytes object made of hexadecimal digits: \<^verbatim>\<open>b'\<close>, the digits,
  and a closing quote.
\<close>

definition str_bytes :: "string \<Rightarrow> string" where
  "str_bytes h = CHR ''b'' # CHR 0x27 # h @ [CHR 0x27]"

definition byte_sig :: "endian \<Rightarrow> string" where
  "byte_sig e =
     (if e = Little then CHR ''b'' # CHR 0x27 # ''49492a00''
      else CHR ''b'' # CHR 0x27 # ''4d4d002a'')"

text \<open>An open binary file: its contents and the read position.\<close>

record handle =
  data :: "byte list"
  pos :: nat

definition open_rb :: "byte list \<Rightarrow> handle" where
  "open_rb bs = \<lparr>data = bs, pos = 0\<rparr>"

definition read :: "handle \<Rightarrow> nat \<Rightarrow> byte list \<times> handle" where
  "read f k =
     (let chunk = take k (drop (pos f) (data f))
      in (chunk, f\<lparr>pos := pos f + length chunk\<rparr>))"

text \<open>
  The loop of lines 61-65: \<^verbatim>\<open>iter(lambda: f.read(32), b"")\<close> ends at the first
  empty chunk, the \<^verbatim>\<open>break\<close> ends it once \<open>n\<close> exceeds 10. The result is
  \<open>hex_dump\<close>, the counter \<open>n\<close> and the handle.
\<close>

function chunk_loop :: "handle \<Rightarrow> string \<Rightarrow> nat \<Rightarrow> string \<times> nat \<times> handle" where
  "chunk_loop f hex_dump n =
     (case read f 32 of (chunk, f') \<Rightarrow>
        if chunk = [] then (hex_dump, n, f')
        else if n + 1 > 10 then (hex_dump @ str_bytes (hexlify chunk), n + 1, f')
        else chunk_loop f' (hex_dump @ str_bytes (hexlify chunk)) (n + 1))"
  by pat_completeness auto
termination
  by (relation "measure (\<lambda>(f, hex_dump, n). 11 - n)") auto

declare chunk_loop.simps [simp del]

definition read_chunks :: "byte list \<Rightarrow> string \<times> nat \<times> handle" where
  "read_chunks bs = chunk_loop (open_rb bs) [] 0"

definition check_hex :: "endian \<Rightarrow> path \<Rightarrow> world \<Rightarrow> (error + bool) \<times> world" where
  "check_hex endian file_path w =
     (case lookup w file_path of
        None \<Rightarrow> (Inl (FileNotFoundError file_path), w)
      | Some bs \<Rightarrow>
          (case read_chunks bs of (hex_dump, n, f) \<Rightarrow>
             if take 10 hex_dump = byte_sig endian then (Inr True, w)
             else (Inr False,
                   print (''Error Code 2: File at '' @ file_path @ '' is not signed as TIFF.'') w)))"

subsection \<open>External capabilities\<close>

text \<open>
  Decoding images and writing PDF files is the work of PIL and PyPDF2. The model
  takes them as a parameter: \<open>image_open\<close> is \<^verbatim>\<open>Image.open\<close> followed by
  \<^verbatim>\<open>ImageSequence.Iterator\<close> (the frames in on-disk order), \<open>convert_rgb\<close> is
  \<^verbatim>\<open>page.convert("RGB")\<close>, \<open>image_save\<close> is \<^verbatim>\<open>images[0].save(path, ...)\<close>,
  which sees the path it writes to, \<open>pdf_pages\<close> is what \<^verbatim>\<open>merger.append\<close>
  reads from a file and \<open>merger_write\<close> is \<^verbatim>\<open>merger.write\<close>. \<open>None\<close> stands
  for an exception raised inside the library. \<open>str_lower\<close> is Python's
  \<^verbatim>\<open>str.lower\<close>, which lower-cases every cased character by the Unicode tables
  of the interpreter; a string with characters beyond ASCII is held in UTF-8, on
  which the substring, suffix and replace operations of the script act as they do
  on the code points.
\<close>

record 'p codec =
  image_open :: "byte list \<Rightarrow> 'p list option"
  convert_rgb :: "'p \<Rightarrow> 'p"
  image_save :: "path \<Rightarrow> 'p list \<Rightarrow> byte list option"
  pdf_pages :: "byte list \<Rightarrow> 'p list option"
  merger_write :: "'p list \<Rightarrow> byte list option"
  str_lower :: "string \<Rightarrow> string"

subsection \<open>Single-file converter (\<^verbatim>\<open>tiff_to_pdf\<close>, lines 73-120)\<close>

text \<open>Lines 94-97: \<^verbatim>\<open>".tiff" in tiff_path\<close> is a substring test.\<close>

definition pdf_path_of :: "path \<Rightarrow> path" where
  "pdf_path_of tiff_path =
     (if sublist ''.tiff'' tiff_path then py_replace ''.tiff'' ''.pdf'' tiff_path
      else py_replace ''.tif'' ''.pdf'' tiff_path)"

definition tiff_to_pdf :: "'p codec \<Rightarrow> path \<Rightarrow> world \<Rightarrow> (error + path) \<times> world" where
  "tiff_to_pdf C tiff_path w =
     (let pdf_path = pdf_path_of tiff_path in
      case lookup w tiff_path of
        None \<Rightarrow>
          (Inl (PyException (tiff_path @ '' does not find.'')),
           print ''Exiting with Error Code 1:'' w)
      | Some bs \<Rightarrow>
          (case image_open C bs of
             None \<Rightarrow> (Inl (CodecError tiff_path), w)
           | Some frames \<Rightarrow>
               (let images = map (convert_rgb C) frames in
                if images = [] then (Inl IndexError, w)
                else
                  (case (if length images = 1 then image_save C pdf_path [hd images]
                         else image_save C pdf_path (hd images # tl images)) of
                     None \<Rightarrow> (Inl (CodecError tiff_path), w)
                   | Some out \<Rightarrow>
                       (Inr pdf_path,
                        print (pdf_path @ '' created'') (write_file pdf_path out w))))))"

subsection \<open>Batch pipeline (\<^verbatim>\<open>main\<close>, lines 123-172)\<close>

text \<open>
  Lines 135-139. The listing is taken once, before the loop. The three tests are
  joined by \<^verbatim>\<open>and\<close>, so the validator runs only on names with the extension,
  and before the membership test.
\<close>

fun convert_all ::
  "'p codec \<Rightarrow> endian \<Rightarrow> string list \<Rightarrow> path \<Rightarrow> string list \<Rightarrow> path list \<Rightarrow> world
     \<Rightarrow> (error + path list) \<times> world" where
  "convert_all C endian pat_files input_path [] middle_file_names w = (Inr middle_file_names, w)"
| "convert_all C endian pat_files input_path (file # rest) middle_file_names w =
     (if suffix ''.tiff'' file \<or> suffix ''.tif'' file then
        (case check_hex endian (path_join input_path file) w of
           (Inl e, w1) \<Rightarrow> (Inl e, w1)
         | (Inr ok, w1) \<Rightarrow>
             if ok \<and> file \<in> set pat_files then
               (case tiff_to_pdf C (path_join input_path file) w1 of
                  (Inl e, w2) \<Rightarrow> (Inl e, w2)
                | (Inr pdf, w2) \<Rightarrow>
                    convert_all C endian pat_files input_path rest (middle_file_names @ [pdf]) w2)
             else convert_all C endian pat_files input_path rest middle_file_names w1)
      else convert_all C endian pat_files input_path rest middle_file_names w)"

text \<open>Lines 145-146: the merger takes the pages of each intermediate file in turn.\<close>

fun merge_all :: "'p codec \<Rightarrow> path list \<Rightarrow> 'p list \<Rightarrow> world \<Rightarrow> error + 'p list" where
  "merge_all C [] merger w = Inr merger"
| "merge_all C (pdf # rest) merger w =
     (case lookup w pdf of
        None \<Rightarrow> Inl (FileNotFoundError pdf)
      | Some bs \<Rightarrow>
          (case pdf_pages C bs of
             None \<Rightarrow> Inl (CodecError pdf)
           | Some ps \<Rightarrow> merge_all C rest (merger @ ps) w))"

text \<open>Lines 159-161.\<close>

fun remove_middle :: "path list \<Rightarrow> world \<Rightarrow> (error + unit) \<times> world" where
  "remove_middle [] w = (Inr (), w)"
| "remove_middle (file # rest) w =
     (case os_remove file (print (''Removing '' @ file @ ''.'') w) of
        (Inl e, w1) \<Rightarrow> (Inl e, w1)
      | (Inr u, w1) \<Rightarrow> remove_middle rest w1)"

text \<open>Lines 164-167, over the second listing of the input directory.\<close>

fun remove_origin :: "string list \<Rightarrow> path \<Rightarrow> string list \<Rightarrow> world \<Rightarrow> (error + unit) \<times> world" where
  "remove_origin pat_files input_path [] w = (Inr (), w)"
| "remove_origin pat_files input_path (file # rest) w =
     (if file \<in> set pat_files then
        (case os_remove (path_join input_path file) (print (''Removing '' @ file @ ''.'') w) of
           (Inl e, w1) \<Rightarrow> (Inl e, w1)
         | (Inr u, w1) \<Rightarrow> remove_origin pat_files input_path rest w1)
      else remove_origin pat_files input_path rest w)"

definition input_path :: path where
  "input_path = path_join ''pdf'' ''input''"

text \<open>Lines 126 and 150-151; \<open>now\<close> is the text that \<^verbatim>\<open>strftime\<close> returns.\<close>

definition out_path :: path where
  "out_path = path_join ''pdf'' ''output''"

definition pat_id :: "'p codec \<Rightarrow> string list \<Rightarrow> string" where
  "pat_id C argv = py_replace '','' ''_'' (str_lower C (argv ! 1))"

definition outfile_name :: "'p codec \<Rightarrow> string list \<Rightarrow> string \<Rightarrow> string" where
  "outfile_name C argv now = pat_id C argv @ ''_merged_'' @ now @ ''.pdf''"

definition outfile_path :: "'p codec \<Rightarrow> string list \<Rightarrow> string \<Rightarrow> path" where
  "outfile_path C argv now = path_join out_path (outfile_name C argv now)"

text \<open>
  The whole run. \<^verbatim>\<open>sys.argv[1]\<close> raises when there is no job identifier.
  \<open>Inr ()\<close> is the \<^verbatim>\<open>quit()\<close> of line 172.
\<close>

definition main :: "'p codec \<Rightarrow> endian \<Rightarrow> string list \<Rightarrow> string \<Rightarrow> world \<Rightarrow> (error + unit) \<times> world" where
  "main C endian argv now w =
     (if length argv < 2 then (Inl IndexError, w)
      else
        (let pat_files = argv;
             w1 = print ''~~~> Launching TIFF to PDF Converter.'' w
         in case convert_all C endian pat_files input_path (listdir input_path w1) [] w1 of
              (Inl e, w2) \<Rightarrow> (Inl e, w2)
            | (Inr middle_file_names, w2) \<Rightarrow>
                (case merge_all C middle_file_names [] w2 of
                   Inl e \<Rightarrow> (Inl e, w2)
                 | Inr merger \<Rightarrow>
                     (case merger_write C merger of
                        None \<Rightarrow> (Inl (CodecError (outfile_path C argv now)), w2)
                      | Some out \<Rightarrow>
                          (let w3 = print (outfile_name C argv now
                                             @ '' created succesfully in output path.'')
                                      (write_file (outfile_path C argv now) out w2)
                           in case remove_middle middle_file_names w3 of
                                (Inl e, w4) \<Rightarrow> (Inl e, w4)
                              | (Inr u, w4) \<Rightarrow>
                                  (case remove_origin pat_files input_path (listdir input_path w4) w4 of
                                     (Inl e, w5) \<Rightarrow> (Inl e, w5)
                                   | (Inr u', w5) \<Rightarrow>
                                       (Inr (),
                                        print ''~~~> Closing TIFF to PDF Converter. Merger Success!''
                                          (print ''Exiting with Error Code 0:'' w5))))))))"

text \<open>
  The value of \<open>middle_file_names\<close> when the loop of lines 135-139 has ended, and
  the empty list when the loop raised.
\<close>

definition middle_files :: "'p codec \<Rightarrow> endian \<Rightarrow> string list \<Rightarrow> world \<Rightarrow> path list" where
  "middle_files C endian argv w =
     (let w1 = print ''~~~> Launching TIFF to PDF Converter.'' w
      in case convert_all C endian argv input_path (listdir input_path w1) [] w1 of
           (Inl e, w2) \<Rightarrow> []
         | (Inr middle_file_names, w2) \<Rightarrow> middle_file_names)"

subsection \<open>A stand-in codec for concrete runs\<close>

text \<open>
  To run the pipeline on a concrete directory the external capabilities need
  values. In this stand-in an image file is four signature bytes followed by one
  byte for each frame, a PDF file is \<^verbatim>\<open>%PDF\<close> followed by one byte for each
  page, the conversion to RGB leaves a frame as it is, and lower-casing is that
  of ASCII text (the job identifiers of the runs below are ASCII).
\<close>

definition pdf_magic :: "byte list" where
  "pdf_magic = [0x25, 0x50, 0x44, 0x46]"

definition toy_codec :: "byte codec" where
  "toy_codec =
     \<lparr>image_open = (\<lambda>bs. if length bs \<le> 4 then None else Some (drop 4 bs)),
      convert_rgb = (\<lambda>p. p),
      image_save = (\<lambda>p ps. Some (pdf_magic @ ps)),
      pdf_pages = (\<lambda>bs. if take 4 bs = pdf_magic then Some (drop 4 bs) else None),
      merger_write = (\<lambda>ps. Some (pdf_magic @ ps)),
      str_lower = ascii_lower\<rparr>"

text \<open>The signature that the spec gives for each byte order.\<close>

definition tiff_signature :: "endian \<Rightarrow> byte list" where
  "tiff_signature e = (if e = Little then [0x49, 0x49, 0x2A, 0x00] else [0x4D, 0x4D, 0x00, 0x2A])"

subsection \<open>Example directories\<close>

text \<open>
  An input directory with \<^verbatim>\<open>x.tif\<close> (two frames) and \<^verbatim>\<open>x.tiff\<close> (one frame),
  both with the little-endian signature, and a text file.
\<close>

definition two_scans :: world where
  "two_scans =
     \<lparr>files = [(''pdf/input/x.tif'', [0x49, 0x49, 0x2A, 0x00, 1, 2]),
               (''pdf/input/x.tiff'', [0x49, 0x49, 0x2A, 0x00, 7]),
               (''pdf/input/notes.txt'', [0x68, 0x69])],
      stdout = []\<rparr>"

text \<open>An input directory with one scan whose extension is in upper case.\<close>

definition upper_scan :: world where
  "upper_scan = \<lparr>files = [(''pdf/input/scan.TIF'', [0x49, 0x49, 0x2A, 0x00, 1])], stdout = []\<rparr>"

text \<open>An input directory with one scan and a file named like the script.\<close>

definition scan_and_script :: world where
  "scan_and_script =
     \<lparr>files = [(''pdf/input/x.tif'', [0x49, 0x49, 0x2A, 0x00, 1, 2]),
               (''pdf/input/tiff2pdf.py'', [0x23, 0x21])],
      stdout = []\<rparr>"

text \<open>
  An input directory listed as \<^verbatim>\<open>b.tif\<close>, \<^verbatim>\<open>z.txt\<close>, \<^verbatim>\<open>c.tif\<close> (which
  has the extension but not the signature), \<^verbatim>\<open>c.pdf\<close> and \<^verbatim>\<open>a.tiff\<close>.
\<close>

definition three_scans :: world where
  "three_scans =
     \<lparr>files = [(''pdf/input/b.tif'', [0x49, 0x49, 0x2A, 0x00, 3]),
               (''pdf/input/z.txt'', [0x68, 0x69]),
               (''pdf/input/c.tif'', [0x25, 0x50, 0x44, 0x46, 9]),
               (''pdf/input/c.pdf'', [0x25, 0x50, 0x44, 0x46, 5]),
               (''pdf/input/a.tiff'', [0x49, 0x49, 0x2A, 0x00, 1, 2])],
      stdout = []\<rparr>"

section \<open>Properties\<close>

subsection \<open>The chunk loop\<close>

lemma chunk_loop_bound:
  "chunk_loop f d n = (d', n', f') \<Longrightarrow> n \<le> 10 \<Longrightarrow> pos f \<le> length (data f) \<Longrightarrow>
     n' \<le> 11 \<and> data f' = data f \<and> pos f' = min (length (data f)) (pos f + 32 * (11 - n))"
proof (induction f d n arbitrary: d' n' f' rule: chunk_loop.induct)
  case (1 f hex_dump n)
  define chunk where "chunk = take 32 (drop (pos f) (data f))"
  define f1 where "f1 = f\<lparr>pos := pos f + length chunk\<rparr>"
  have r: "read f 32 = (chunk, f1)"
    by (simp add: read_def chunk_def f1_def)
  show ?case
  proof (cases "chunk = []")
    case True
    with "1.prems" r show ?thesis
      by (simp add: chunk_loop.simps[of f] chunk_def f1_def)
  next
    case False
    show ?thesis
    proof (cases "n + 1 > 10")
      case True
      with False "1.prems" r show ?thesis
        by (auto simp add: chunk_loop.simps[of f] chunk_def f1_def min_def)
    next
      case b: False
      from False b "1.prems" r
      have run: "chunk_loop f1 (hex_dump @ str_bytes (hexlify chunk)) (n + 1) = (d', n', f')"
        by (simp add: chunk_loop.simps[of f])
      have p: "pos f1 \<le> length (data f1)"
        using "1.prems" by (simp add: f1_def chunk_def)
      from "1.IH"[OF r[symmetric] False b run _ p] b
      have "n' \<le> 11 \<and> data f' = data f1 \<and> pos f' = min (length (data f1)) (pos f1 + 32 * (11 - (n + 1)))"
        by simp
      with b "1.prems" show ?thesis
        by (auto simp: f1_def chunk_def min_def)
    qed
  qed
qed

lemma chunk_loop_count:
  "chunk_loop f d n = (d', n', f') \<Longrightarrow> n \<le> n' \<and> pos f' \<le> pos f + 32 * (n' - n)"
proof (induction f d n arbitrary: d' n' f' rule: chunk_loop.induct)
  case (1 f hex_dump n)
  define chunk where "chunk = take 32 (drop (pos f) (data f))"
  define f1 where "f1 = f\<lparr>pos := pos f + length chunk\<rparr>"
  have r: "read f 32 = (chunk, f1)"
    by (simp add: read_def chunk_def f1_def)
  have len: "length chunk \<le> 32"
    by (simp add: chunk_def)
  show ?case
  proof (cases "chunk = []")
    case True
    with "1.prems" r show ?thesis
      by (simp add: chunk_loop.simps[of f] chunk_def f1_def)
  next
    case False
    show ?thesis
    proof (cases "n + 1 > 10")
      case True
      with False "1.prems" r len show ?thesis
        by (auto simp add: chunk_loop.simps[of f] f1_def)
    next
      case b: False
      from False b "1.prems" r
      have run: "chunk_loop f1 (hex_dump @ str_bytes (hexlify chunk)) (n + 1) = (d', n', f')"
        by (simp add: chunk_loop.simps[of f])
      from "1.IH"[OF r[symmetric] False b run]
      have "n + 1 \<le> n' \<and> pos f' \<le> pos f1 + 32 * (n' - (n + 1))" .
      with len show ?thesis
        by (auto simp: f1_def)
    qed
  qed
qed

lemma chunk_loop_prefix: "\<exists>r. fst (chunk_loop f d n) = d @ r"
proof (induction f d n rule: chunk_loop.induct)
  case (1 f hex_dump n)
  show ?case
    apply (subst chunk_loop.simps)
    using 1
    apply (auto simp: read_def Let_def split: prod.splits)
    done
qed

lemma hexdigit_inj: "i < 16 \<Longrightarrow> j < 16 \<Longrightarrow> hexdigit i = hexdigit j \<longleftrightarrow> i = j"
  unfolding hexdigit_def
  by (subst nth_eq_iff_index_eq) simp_all

lemma hex_byte_inj: "hex_byte a = hex_byte b \<longleftrightarrow> a = b"
proof
  assume "hex_byte a = hex_byte b"
  then have "unat a div 16 = unat b div 16" "unat a mod 16 = unat b mod 16"
    using unsigned_less[of a, where 'a=nat] unsigned_less[of b, where 'a=nat]
    by (simp_all add: hex_byte_def hexdigit_inj less_mult_imp_div_less)
  then have "unat a = unat b"
    by (metis div_mult_mod_eq)
  then show "a = b" by (simp add: word_unat_eq_iff)
qed simp


lemma hex_byte_consts:
  "hex_byte 0x49 = ''49''" "hex_byte 0x2A = ''2a''" "hex_byte 0x00 = ''00''" "hex_byte 0x4D = ''4d''"
  by (simp_all add: hex_byte_def hexdigit_def)

lemma hex_byte_length: "length (hex_byte b) = 2"
  by (simp add: hex_byte_def)

lemma read_chunks_Nil: "fst (read_chunks []) = []"
  by (simp add: read_chunks_def open_rb_def chunk_loop.simps read_def)

lemma read_chunks_short:
  "bs \<noteq> [] \<Longrightarrow> length bs < 4 \<Longrightarrow> fst (read_chunks bs) = str_bytes (hexlify bs)"
  by (simp add: read_chunks_def open_rb_def chunk_loop.simps[of "\<lparr>data = bs, pos = 0\<rparr>"]
      chunk_loop.simps[of "\<lparr>data = bs, pos = length bs\<rparr>"] read_def)

lemma read_chunks_first:
  "bs \<noteq> [] \<Longrightarrow> \<exists>r. fst (read_chunks bs) = str_bytes (hexlify (take 32 bs)) @ r"
  using chunk_loop_prefix[of "\<lparr>data = bs, pos = length (take 32 bs)\<rparr>" "str_bytes (hexlify (take 32 bs))" 1]
  by (auto simp add: read_chunks_def open_rb_def chunk_loop.simps[of "\<lparr>data = bs, pos = 0\<rparr>"] read_def)

lemma hexlify_length: "length (hexlify bs) = 2 * length bs"
  by (induction bs) (simp_all add: hexlify_def hex_byte_def)

lemma take10_long:
  "take 10 (str_bytes (hexlify (a # b # c # d # rest)) @ r) = CHR ''b'' # CHR 0x27 # hexlify [a, b, c, d]"
  by (simp add: str_bytes_def hexlify_def hex_byte_def)

lemma hexlify4_eq: "hexlify [a, b, c, d] = hexlify [a', b', c', d'] \<longleftrightarrow> [a, b, c, d] = [a', b', c', d']"
  using hex_byte_inj[of a a'] hex_byte_inj[of b b'] hex_byte_inj[of c c'] hex_byte_inj[of d d']
  by (auto simp add: hexlify_def hex_byte_def)

lemma byte_sig_hexlify: "byte_sig e = CHR ''b'' # CHR 0x27 # hexlify (tiff_signature e)"
  by (simp add: byte_sig_def tiff_signature_def hexlify_def hex_byte_consts)

lemma signature_test:
  "take 10 (fst (read_chunks bs)) = byte_sig e \<longleftrightarrow> take 4 bs = tiff_signature e"
proof (cases "length bs < 4")
  case True
  show ?thesis
  proof (cases "bs = []")
    case True
    then show ?thesis
      by (auto simp add: read_chunks_Nil byte_sig_def tiff_signature_def)
  next
    case False
    have "length (take 10 (fst (read_chunks bs))) < 10"
      using True by (simp add: read_chunks_short[OF False True] str_bytes_def hexlify_length)
    moreover have "length (byte_sig e) = 10" by (simp add: byte_sig_def)
    moreover have "length (tiff_signature e) = 4" by (simp add: tiff_signature_def)
    ultimately show ?thesis using True
      by (metis length_take min.absorb1 nat_less_le)
  qed
next
  case False
  then obtain a b c d rest where bs: "bs = a # b # c # d # rest"
    by (cases bs; simp; (rename_tac x xs, case_tac xs; simp; (rename_tac y ys, case_tac ys; simp; (rename_tac z zs, case_tac zs; simp))))
  then obtain r where r: "fst (read_chunks bs) = str_bytes (hexlify (a # b # c # d # take 28 rest)) @ r"
    using read_chunks_first[of bs] by auto
  obtain a' b' c' d' where sg: "tiff_signature e = [a', b', c', d']"
    by (cases e) (auto simp: tiff_signature_def)
  show ?thesis
    unfolding r take10_long byte_sig_hexlify
    using hexlify4_eq[of a b c d a' b' c' d'] by (simp add: bs sg)
qed

text \<open>
  C1. For a file that is there, \<open>check_hex\<close> returns without raising, and it
  returns true exactly when the first four bytes of the file are the signature
  of the host's byte order: 49 49 2A 00 on a little-endian host, 4D 4D 00 2A on
  a big-endian one. A file of fewer than four bytes, and so an empty file, gives
  false.
\<close>

theorem check_hex_signature:
  assumes "lookup w p = Some bs"
  shows "fst (check_hex e p w) = Inr (take 4 bs = tiff_signature e)
         \<and> tiff_signature Little = [0x49, 0x49, 0x2A, 0x00]
         \<and> tiff_signature Big = [0x4D, 0x4D, 0x00, 0x2A]
         \<and> (length bs < 4 \<longrightarrow> fst (check_hex e p w) = Inr False)"
proof -
  have sig: "(take 10 (fst (read_chunks bs)) = byte_sig e) = (take 4 bs = tiff_signature e)"
    by (rule signature_test)
  obtain hex_dump n f where r: "read_chunks bs = (hex_dump, n, f)"
    by (metis prod_cases3)
  have res: "fst (check_hex e p w) = Inr (take 4 bs = tiff_signature e)"
    using assms sig by (simp add: check_hex_def r)
  have len: "length (tiff_signature e) = 4"
    by (simp add: tiff_signature_def)
  have short: "length bs < 4 \<longrightarrow> take 4 bs \<noteq> tiff_signature e"
    using len by (metis length_take min.absorb1 nat_less_le)
  show ?thesis
    using res short by (simp add: tiff_signature_def)
qed

theorem check_hex_signature_witness:
  "fst (check_hex Little ''pdf/input/a.tif''
          \<lparr>files = [(''pdf/input/a.tif'', [0x49, 0x49, 0x2A, 0x00, 0x08])], stdout = []\<rparr>) = Inr True
   \<and> fst (check_hex Big ''pdf/input/a.tif''
          \<lparr>files = [(''pdf/input/a.tif'', [0x49, 0x49, 0x2A, 0x00, 0x08])], stdout = []\<rparr>) = Inr False"
  using check_hex_signature [of "\<lparr>files = [(''pdf/input/a.tif'', [0x49, 0x49, 0x2A, 0x00, 0x08])], stdout = []\<rparr>"
      "''pdf/input/a.tif''" "[0x49, 0x49, 0x2A, 0x00, 0x08]" Little]
    check_hex_signature [of "\<lparr>files = [(''pdf/input/a.tif'', [0x49, 0x49, 0x2A, 0x00, 0x08])], stdout = []\<rparr>"
      "''pdf/input/a.tif''" "[0x49, 0x49, 0x2A, 0x00, 0x08]" Big]
  by (simp add: lookup_def tiff_signature_def)

text \<open>
  C8. The validator's loop reads at most 11 chunks of at most 32 bytes each: when
  it ends the counter is at most 11 and the read position is the length of the
  file or 352, whichever is smaller, whatever the size of the file.
\<close>

theorem check_hex_bounded_read:
  "(case read_chunks bs of (hex_dump, n, f) \<Rightarrow>
      n \<le> 11 \<and> pos f = min (length bs) 352 \<and> pos f \<le> 32 * n \<and> data f = bs)"
proof -
  obtain hex_dump n f where r: "chunk_loop (open_rb bs) [] 0 = (hex_dump, n, f)"
    by (metis prod_cases3)
  have a: "n \<le> 11 \<and> data f = bs \<and> pos f = min (length bs) 352"
    using chunk_loop_bound [OF r] by (simp add: open_rb_def)
  have b: "pos f \<le> 32 * n"
    using chunk_loop_count [OF r] by (simp add: open_rb_def)
  from a b show ?thesis
    by (simp add: read_chunks_def r)
qed

subsection \<open>Deriving the intermediate path\<close>

lemma prefix_overlap:
  assumes "c \<notin> set t" and "prefix (c # t) (s @ c # u)"
  shows "s = [] \<or> prefix (c # t) s"
proof -
  from assms(2) consider "prefix (c # t) s" | us where "c # t = s @ us" "prefix us (c # u)"
    by (auto simp: prefix_append)
  then show ?thesis
  proof cases
    case 1
    then show ?thesis by simp
  next
    case 2
    show ?thesis
    proof (cases us)
      case Nil
      with 2 show ?thesis by simp
    next
      case (Cons a us')
      with 2 have "a = c" by simp
      with 2 Cons have eq: "c # t = s @ c # us'" by simp
      show ?thesis
      proof (cases s)
        case Nil
        then show ?thesis by simp
      next
        case (Cons b s')
        with eq have "t = s' @ c # us'" by simp
        with assms(1) show ?thesis by simp
      qed
    qed
  qed
qed

lemma py_replace_Nil: "old \<noteq> [] \<Longrightarrow> py_replace old new [] = []"
  by (simp add: py_replace.simps)

lemma py_replace_hit:
  "old \<noteq> [] \<Longrightarrow> prefix old s \<Longrightarrow> py_replace old new s = new @ py_replace old new (drop (length old) s)"
  by (subst py_replace.simps) auto

lemma py_replace_miss:
  "old \<noteq> [] \<Longrightarrow> \<not> prefix old (x # xs) \<Longrightarrow> py_replace old new (x # xs) = x # py_replace old new xs"
  by (subst py_replace.simps) auto

lemma py_replace_absent:
  "old \<noteq> [] \<Longrightarrow> \<not> sublist old s \<Longrightarrow> py_replace old new s = s"
proof (induction s)
  case Nil
  then show ?case by (simp add: py_replace_Nil)
next
  case (Cons x xs)
  then show ?case
    by (simp add: py_replace_miss sublist_Cons_right)
qed

lemma py_replace_suffix:
  assumes "c \<notin> set t" and "\<not> sublist (c # t) stem"
  shows "py_replace (c # t) new (stem @ c # t) = stem @ new"
  using assms(2)
proof (induction stem)
  case Nil
  show ?case
    by (simp add: py_replace_hit py_replace_Nil)
next
  case (Cons x xs)
  from Cons.prems have np: "\<not> prefix (c # t) (x # xs)" and ns: "\<not> sublist (c # t) xs"
    by (simp_all add: sublist_Cons_right)
  have "\<not> prefix (c # t) ((x # xs) @ c # t)"
    using prefix_overlap[OF assms(1), of "x # xs" t] np by blast
  then have "py_replace (c # t) new ((x # xs) @ c # t) = x # py_replace (c # t) new (xs @ c # t)"
    by (simp add: py_replace_miss)
  with Cons.IH[OF ns] show ?case by simp
qed

lemma no_tiff_before_tif:
  "\<not> sublist ''.tif'' stem \<Longrightarrow> \<not> sublist ''.tiff'' (stem @ ''.tif'')"
proof (induction stem)
  case Nil
  show ?case by (simp add: sublist_code)
next
  case (Cons x xs)
  from Cons.prems have np: "\<not> prefix ''.tif'' (x # xs)" and ns: "\<not> sublist ''.tif'' xs"
    by (simp_all add: sublist_Cons_right)
  have "\<not> prefix ''.tiff'' ((x # xs) @ ''.tif'')"
  proof
    assume a: "prefix ''.tiff'' ((x # xs) @ ''.tif'')"
    have d: "CHR ''.'' \<notin> set ''tiff''" by simp
    from prefix_overlap[OF d a] have "prefix ''.tiff'' (x # xs)"
      by blast
    moreover have "prefix ''.tif'' ''.tiff''"
      by simp
    ultimately have "prefix ''.tif'' (x # xs)"
      by (rule prefix_order.trans[rotated])
    with np show False by simp
  qed
  with Cons.IH[OF ns] show ?case
    by (simp add: sublist_Cons_right)
qed

lemma pdf_path_of_tiff:
  "\<not> sublist ''.tiff'' stem \<Longrightarrow> pdf_path_of (stem @ ''.tiff'') = stem @ ''.pdf''"
  using py_replace_suffix[of "CHR ''.''" "''tiff''" stem "''.pdf''"]
  by (simp add: pdf_path_of_def)

lemma pdf_path_of_tif:
  "\<not> sublist ''.tif'' stem \<Longrightarrow> pdf_path_of (stem @ ''.tif'') = stem @ ''.pdf''"
  using py_replace_suffix[of "CHR ''.''" "''tif''" stem "''.pdf''"] no_tiff_before_tif[of stem]
  by (simp add: pdf_path_of_def)

lemma pdf_path_of_other:
  "\<not> sublist ''.tif'' p \<Longrightarrow> pdf_path_of p = p"
proof -
  assume a: "\<not> sublist ''.tif'' p"
  have "sublist ''.tif'' ''.tiff''" by (simp add: sublist_code)
  then have "sublist ''.tiff'' p \<Longrightarrow> sublist ''.tif'' p"
    by (rule sublist_order.order.trans)
  then have "\<not> sublist ''.tiff'' p"
    using a by blast
  with a show ?thesis
    by (simp add: pdf_path_of_def py_replace_absent)
qed

lemma save_branches:
  "images \<noteq> [] \<Longrightarrow>
     (if length images = 1 then image_save C p [hd images] else image_save C p (hd images # tl images))
       = image_save C p images"
  by (cases images) auto

lemma tiff_to_pdf_ok:
  assumes "lookup w q = Some bs" and "image_open C bs = Some frames" and "frames \<noteq> []"
    and "image_save C (pdf_path_of q) (map (convert_rgb C) frames) = Some out"
  shows "tiff_to_pdf C q w =
           (Inr (pdf_path_of q), print (pdf_path_of q @ '' created'') (write_file (pdf_path_of q) out w))"
proof -
  have ne: "map (convert_rgb C) frames \<noteq> []"
    using assms(3) by simp
  have sv: "(if length (map (convert_rgb C) frames) = 1
             then image_save C (pdf_path_of q) [hd (map (convert_rgb C) frames)]
             else image_save C (pdf_path_of q)
                    (hd (map (convert_rgb C) frames) # tl (map (convert_rgb C) frames))) = Some out"
    by (simp only: save_branches [OF ne] assms(4))
  show ?thesis
    unfolding tiff_to_pdf_def Let_def
    by (simp only: assms(1,2) ne sv option.case if_False)
qed

text \<open>
  C3, as amended. When \<^verbatim>\<open>.tiff\<close> occurs in the path only as its suffix, or
  \<^verbatim>\<open>.tif\<close> occurs only as its suffix, the intermediate path is the path with
  that suffix replaced by \<^verbatim>\<open>.pdf\<close>. A path in which \<^verbatim>\<open>.tif\<close> does not occur
  is derived unchanged, and no error is raised for the suffix of a path: for any
  path whose file is there, decodes to at least one frame and can be saved, the
  converter returns the derived path.
\<close>

theorem pdf_path_derivation:
  "(\<not> sublist ''.tiff'' stem \<longrightarrow> pdf_path_of (stem @ ''.tiff'') = stem @ ''.pdf'')
   \<and> (\<not> sublist ''.tif'' stem \<longrightarrow> pdf_path_of (stem @ ''.tif'') = stem @ ''.pdf'')
   \<and> (\<not> sublist ''.tif'' p \<longrightarrow> pdf_path_of p = p)
   \<and> (lookup w q = Some bs \<and> image_open C bs = Some frames \<and> frames \<noteq> []
        \<and> image_save C (pdf_path_of q) (map (convert_rgb C) frames) = Some out
       \<longrightarrow> fst (tiff_to_pdf C q w) = Inr (pdf_path_of q))"
  by (simp add: pdf_path_of_tiff pdf_path_of_tif pdf_path_of_other tiff_to_pdf_ok)

theorem pdf_path_derivation_witness:
  "pdf_path_of ''pdf/input/x.tiff'' = ''pdf/input/x.pdf''
   \<and> pdf_path_of ''pdf/input/x.tif'' = ''pdf/input/x.pdf''
   \<and> pdf_path_of ''pdf/input/scan.TIF'' = ''pdf/input/scan.TIF''
   \<and> fst (tiff_to_pdf toy_codec ''pdf/input/scan.TIF'' upper_scan) = Inr ''pdf/input/scan.TIF''"
proof -
  have a: "\<not> sublist ''.tiff'' ''pdf/input/x''" and b: "\<not> sublist ''.tif'' ''pdf/input/x''"
    and c: "\<not> sublist ''.tif'' ''pdf/input/scan.TIF''"
    by code_simp+
  have d: "lookup upper_scan ''pdf/input/scan.TIF'' = Some [0x49, 0x49, 0x2A, 0x00, 1]"
    by (simp add: lookup_def upper_scan_def)
  have e: "image_open toy_codec [0x49, 0x49, 0x2A, 0x00, 1] = Some [1]"
    by (simp add: toy_codec_def)
  have f: "image_save toy_codec (pdf_path_of ''pdf/input/scan.TIF'') (map (convert_rgb toy_codec) [1])
             = Some (pdf_magic @ [1])"
    by (simp add: toy_codec_def)
  from pdf_path_derivation [of "''pdf/input/x''" "''pdf/input/scan.TIF''" upper_scan
      "''pdf/input/scan.TIF''" "[0x49, 0x49, 0x2A, 0x00, 1]" toy_codec "[1]" "pdf_magic @ [1]"]
    a b c d e f
  show ?thesis
    by simp
qed

text \<open>
  Against C3 as stated: \<^verbatim>\<open>a.tiff.tif\<close> ends in \<^verbatim>\<open>.tif\<close>, yet it is the inner
  \<^verbatim>\<open>.tiff\<close> that is replaced; and \<^verbatim>\<open>scan.TIF\<close> ends in neither suffix, yet the
  converter returns a path instead of failing.
\<close>

theorem pdf_path_counterexample:
  "pdf_path_of ''pdf/input/a.tiff.tif'' = ''pdf/input/a.pdf.tif''
   \<and> fst (tiff_to_pdf toy_codec ''pdf/input/scan.TIF'' upper_scan) = Inr ''pdf/input/scan.TIF''"
  by code_simp

text \<open>
  C9. Two sources of one directory, \<^verbatim>\<open>x.tif\<close> and \<^verbatim>\<open>x.tiff\<close>, derive the same
  intermediate path; the conversion step then lists that path twice and the run
  ends in the second \<^verbatim>\<open>os.remove\<close>.
\<close>

theorem intermediate_path_collision:
  "pdf_path_of (path_join input_path ''x.tif'') = pdf_path_of (path_join input_path ''x.tiff'')
   \<and> fst (convert_all toy_codec Little [''tiff2pdf.py'', ''job'', ''x.tif'', ''x.tiff''] input_path
            (listdir input_path two_scans) [] two_scans)
       = Inr [''pdf/input/x.pdf'', ''pdf/input/x.pdf'']
   \<and> fst (main toy_codec Little [''tiff2pdf.py'', ''job'', ''x.tif'', ''x.tiff'']
            ''2026_01_01_00_00_00'' two_scans)
       = Inl (FileNotFoundError ''pdf/input/x.pdf'')"
  by code_simp

text \<open>
  C5. In the same directory the listing is \<^verbatim>\<open>x.tif\<close> (frames 1, 2), then
  \<^verbatim>\<open>x.tiff\<close> (frame 7); the merged output holds the pages 7, 7 and not 1, 2, 7.
\<close>

theorem merged_pages_collision:
  "listdir input_path two_scans = [''x.tif'', ''x.tiff'', ''notes.txt'']
   \<and> image_open toy_codec [0x49, 0x49, 0x2A, 0x00, 1, 2] = Some [1, 2]
   \<and> image_open toy_codec [0x49, 0x49, 0x2A, 0x00, 7] = Some [7]
   \<and> lookup (snd (main toy_codec Little [''tiff2pdf.py'', ''job'', ''x.tif'', ''x.tiff'']
                    ''2026_01_01_00_00_00'' two_scans))
        ''pdf/output/job_merged_2026_01_01_00_00_00.pdf''
       = Some (pdf_magic @ [7, 7])"
  by code_simp

subsection \<open>Errors of the validator and of the converter\<close>

text \<open>
  C6, as amended. For a path whose file is there \<open>check_hex\<close> does not raise: it
  returns true and leaves the world as it is, or returns false and prints the
  diagnostic that names the path. For a path with no file the \<^verbatim>\<open>open\<close> of line
  58 raises, and the error reaches the caller with nothing printed.
\<close>

theorem check_hex_raises_when_missing:
  "(lookup w p = None \<longrightarrow> check_hex e p w = (Inl (FileNotFoundError p), w))
   \<and> (lookup w p = Some bs \<longrightarrow>
        check_hex e p w =
          (if take 4 bs = tiff_signature e then (Inr True, w)
           else (Inr False, print (''Error Code 2: File at '' @ p @ '' is not signed as TIFF.'') w)))"
proof -
  obtain hex_dump n f where r: "read_chunks bs = (hex_dump, n, f)"
    by (metis prod_cases3)
  have "(take 10 hex_dump = byte_sig e) = (take 4 bs = tiff_signature e)"
    using signature_test [of bs e] by (simp add: r)
  then show ?thesis
    by (simp add: check_hex_def r)
qed

theorem check_hex_raises_when_missing_witness:
  "check_hex Little ''pdf/input/gone.tif'' upper_scan
     = (Inl (FileNotFoundError ''pdf/input/gone.tif''), upper_scan)
   \<and> check_hex Big ''pdf/input/scan.TIF'' upper_scan
     = (Inr False,
        print (''Error Code 2: File at '' @ ''pdf/input/scan.TIF'' @ '' is not signed as TIFF.'')
          upper_scan)"
  using check_hex_raises_when_missing [where w = upper_scan and p = "''pdf/input/gone.tif''"
      and bs = "[]" and e = Little]
    check_hex_raises_when_missing [where w = upper_scan and p = "''pdf/input/scan.TIF''"
      and bs = "[0x49, 0x49, 0x2A, 0x00, 1]" and e = Big]
  by (simp add: lookup_def upper_scan_def tiff_signature_def)

text \<open>Against C6 as stated: a path with no file makes the validator raise.\<close>

theorem check_hex_counterexample:
  "fst (check_hex Little ''pdf/input/gone.tif'' upper_scan) = Inl (FileNotFoundError ''pdf/input/gone.tif'')
   \<and> stdout (snd (check_hex Little ''pdf/input/gone.tif'' upper_scan)) = []"
  by code_simp

text \<open>
  C7. For a path with no file the converter raises the exception of line 102,
  whose message names the path. It does so whatever the codec is, so before
  anything is opened or decoded, and it writes no file.
\<close>

theorem tiff_to_pdf_missing:
  assumes "lookup w p = None"
  shows "tiff_to_pdf C p w =
           (Inl (PyException (p @ '' does not find.'')), print ''Exiting with Error Code 1:'' w)
         \<and> files (snd (tiff_to_pdf C p w)) = files w"
  using assms by (simp add: tiff_to_pdf_def print_def)

theorem tiff_to_pdf_missing_witness:
  "fst (tiff_to_pdf toy_codec ''pdf/input/gone.tif'' upper_scan)
     = Inl (PyException ''pdf/input/gone.tif does not find.'')"
  using tiff_to_pdf_missing [of upper_scan "''pdf/input/gone.tif''" toy_codec]
  by (simp add: lookup_def upper_scan_def)

subsection \<open>The file system through the pipeline\<close>

lemma lookup_print [simp]: "lookup (print s w) p = lookup w p"
  by (simp add: lookup_def print_def)

lemma files_print [simp]: "files (print s w) = files w"
  by (simp add: print_def)

lemma lookup_write_file [simp]:
  "lookup (write_file q bs w) p = (if p = q then Some bs else lookup w p)"
  by (simp add: lookup_def write_file_def update_conv')

lemma lookup_files_cong: "files w = files v \<Longrightarrow> lookup w p = lookup v p"
  by (simp add: lookup_def)

lemma listdir_files_cong: "files w = files v \<Longrightarrow> listdir d w = listdir d v"
  by (simp add: listdir_def)

lemma os_remove_ok:
  "os_remove q w = (Inr u, w') \<Longrightarrow> lookup w' p = (if p = q then None else lookup w p)"
  by (auto simp add: os_remove_def lookup_def delete_conv' split: if_splits)

lemma check_hex_files [simp]: "files (snd (check_hex e p w)) = files w"
  by (simp add: check_hex_def split: option.splits prod.splits)

lemma check_hex_lookup: "lookup w p = lookup v p \<Longrightarrow> fst (check_hex e p w) = fst (check_hex e p v)"
  by (simp add: check_hex_def split: option.splits prod.splits)

lemma tiff_to_pdf_Inr:
  assumes "tiff_to_pdf C q w = (Inr pdf, w')"
  shows "pdf = pdf_path_of q \<and> (\<forall>p. p \<noteq> pdf \<longrightarrow> lookup w' p = lookup w p) \<and> lookup w' pdf \<noteq> None"
  using assms
  by (auto simp add: tiff_to_pdf_def Let_def split: option.splits if_splits)

lemma convert_all_frame:
  "convert_all C e argv d fs mids w = (Inr mids', w') \<Longrightarrow>
     set mids \<subseteq> set mids' \<and> (\<forall>p. p \<notin> set mids' \<longrightarrow> lookup w' p = lookup w p)"
proof (induction fs arbitrary: mids w)
  case Nil
  then show ?case by simp
next
  case (Cons fname rest)
  show ?case
  proof (cases "suffix ''.tiff'' fname \<or> suffix ''.tif'' fname")
    case False
    with Cons.prems have "convert_all C e argv d rest mids w = (Inr mids', w')"
      by simp
    from Cons.IH[OF this] show ?thesis .
  next
    case True
    obtain r w1 where ch: "check_hex e (path_join d fname) w = (r, w1)"
      by (cases "check_hex e (path_join d fname) w")
    have f1: "files w1 = files w"
      using check_hex_files[of e "path_join d fname" w] ch by simp
    show ?thesis
    proof (cases r)
      case (Inl err)
      with Cons.prems True ch show ?thesis by simp
    next
      case (Inr ok)
      show ?thesis
      proof (cases "ok \<and> fname \<in> set argv")
        case False
        with Cons.prems True ch Inr have "convert_all C e argv d rest mids w1 = (Inr mids', w')"
          by auto
        from Cons.IH[OF this] lookup_files_cong[OF f1] show ?thesis by simp
      next
        case conv: True
        obtain r2 w2 where tp: "tiff_to_pdf C (path_join d fname) w1 = (r2, w2)"
          by (cases "tiff_to_pdf C (path_join d fname) w1")
        show ?thesis
        proof (cases r2)
          case (Inl err)
          with Cons.prems True ch Inr conv tp show ?thesis by simp
        next
          case r2: (Inr pdf)
          with Cons.prems True ch Inr conv tp
          have run: "convert_all C e argv d rest (mids @ [pdf]) w2 = (Inr mids', w')"
            by simp
          from tiff_to_pdf_Inr[OF tp[unfolded r2]]
          have fr: "\<forall>p. p \<noteq> pdf \<longrightarrow> lookup w2 p = lookup w1 p" by blast
          from Cons.IH[OF run] have a: "set (mids @ [pdf]) \<subseteq> set mids'"
            and b: "\<forall>p. p \<notin> set mids' \<longrightarrow> lookup w' p = lookup w2 p" by blast+
          show ?thesis
          proof (intro conjI allI impI)
            show "set mids \<subseteq> set mids'" using a by simp
          next
            fix p assume p: "p \<notin> set mids'"
            with a have "p \<noteq> pdf" by auto
            with fr b p lookup_files_cong[OF f1] show "lookup w' p = lookup w p" by simp
          qed
        qed
      qed
    qed
  qed
qed

lemma remove_middle_ok:
  "remove_middle mids w = (Inr u, w') \<Longrightarrow> lookup w' p = (if p \<in> set mids then None else lookup w p)"
proof (induction mids arbitrary: w)
  case Nil
  then show ?case by simp
next
  case (Cons fname rest)
  obtain r w1 where rm: "os_remove fname (print (''Removing '' @ fname @ ''.'') w) = (r, w1)"
    by (cases "os_remove fname (print (''Removing '' @ fname @ ''.'') w)")
  show ?case
  proof (cases r)
    case (Inl err)
    with Cons.prems rm show ?thesis by simp
  next
    case (Inr u1)
    with Cons.prems rm have run: "remove_middle rest w1 = (Inr u, w')" by simp
    from os_remove_ok[OF rm[unfolded Inr], of p] Cons.IH[OF run]
    show ?thesis by auto
  qed
qed

lemma remove_origin_ok:
  "remove_origin argv d names w = (Inr u, w') \<Longrightarrow>
     lookup w' p = (if p \<in> path_join d ` (set names \<inter> set argv) then None else lookup w p)"
proof (induction names arbitrary: w)
  case Nil
  then show ?case by simp
next
  case (Cons fname rest)
  show ?case
  proof (cases "fname \<in> set argv")
    case False
    with Cons.prems have "remove_origin argv d rest w = (Inr u, w')" by simp
    from Cons.IH[OF this] False show ?thesis by auto
  next
    case True
    obtain r w1 where rm: "os_remove (path_join d fname) (print (''Removing '' @ fname @ ''.'') w) = (r, w1)"
      by (cases "os_remove (path_join d fname) (print (''Removing '' @ fname @ ''.'') w)")
    show ?thesis
    proof (cases r)
      case (Inl err)
      with Cons.prems rm True show ?thesis by simp
    next
      case (Inr u1)
      with Cons.prems rm True have run: "remove_origin argv d rest w1 = (Inr u, w')" by simp
      from os_remove_ok[OF rm[unfolded Inr], of p] Cons.IH[OF run] True
      show ?thesis by auto
    qed
  qed
qed


lemma entry_name_Some:
  "entry_name d p = Some n \<longleftrightarrow> p = d @ ''/'' @ n \<and> n \<noteq> [] \<and> CHR ''/'' \<notin> set n"
proof
  assume "entry_name d p = Some n"
  then have a: "prefix (d @ ''/'') p" and b: "n = drop (length d + 1) p"
    and c: "n \<noteq> []" "CHR ''/'' \<notin> set n"
    by (auto simp add: entry_name_def Let_def split: if_splits)
  from a obtain r where "p = (d @ ''/'') @ r"
    by (auto simp: prefix_def)
  with b c show "p = d @ ''/'' @ n \<and> n \<noteq> [] \<and> CHR ''/'' \<notin> set n"
    by simp
next
  assume "p = d @ ''/'' @ n \<and> n \<noteq> [] \<and> CHR ''/'' \<notin> set n"
  then show "entry_name d p = Some n"
    by (simp add: entry_name_def Let_def)
qed

lemma set_map_filter_conv:
  "set (List.map_filter f xs) = {y. \<exists>x \<in> set xs. f x = Some y}"
  by (induction xs) (auto split: option.splits)

lemma set_listdir:
  "set (listdir d w) = {n. n \<noteq> [] \<and> CHR ''/'' \<notin> set n \<and> lookup w (d @ ''/'' @ n) \<noteq> None}"
proof -
  have "set (listdir d w) = {n. \<exists>p \<in> fst ` set (files w). entry_name d p = Some n}"
    by (simp add: listdir_def set_map_filter_conv)
  also have "\<dots> = {n. n \<noteq> [] \<and> CHR ''/'' \<notin> set n \<and> d @ ''/'' @ n \<in> fst ` set (files w)}"
    by (auto simp add: entry_name_Some)
  also have "\<dots> = {n. n \<noteq> [] \<and> CHR ''/'' \<notin> set n \<and> lookup w (d @ ''/'' @ n) \<noteq> None}"
    by (simp add: lookup_def map_of_eq_None_iff)
  finally show ?thesis .
qed

lemma input_path_join:
  "CHR ''/'' \<notin> set n \<Longrightarrow> path_join input_path n = input_path @ ''/'' @ n"
  by (cases n) (auto simp add: path_join_def input_path_def suffix_def)

lemma in_listdir_input:
  "n \<in> set (listdir input_path w) \<longleftrightarrow>
     n \<noteq> [] \<and> CHR ''/'' \<notin> set n \<and> lookup w (path_join input_path n) \<noteq> None"
  by (auto simp add: set_listdir input_path_join)


lemma convert_all_selects:
  assumes "convert_all C e argv d fs mids w = (Inr mids', w')"
    and "\<forall>f\<in>set fs. lookup w (path_join d f) = lookup w0 (path_join d f)"
    and "\<forall>g\<in>set fs. (suffix ''.tiff'' g \<or> suffix ''.tif'' g) \<and> g \<in> set argv
                        \<and> fst (check_hex e (path_join d g) w0) = Inr True \<longrightarrow>
           (\<forall>f\<in>set fs. pdf_path_of (path_join d g) \<noteq> path_join d f)"
  shows "mids' = mids @ map (\<lambda>f. pdf_path_of (path_join d f))
           (filter (\<lambda>f. (suffix ''.tiff'' f \<or> suffix ''.tif'' f) \<and> f \<in> set argv
                         \<and> fst (check_hex e (path_join d f) w0) = Inr True) fs)"
  using assms
proof (induction fs arbitrary: mids w)
  case Nil
  then show ?case by simp
next
  case (Cons fname rest)
  have clash_rest: "\<forall>g\<in>set rest. (suffix ''.tiff'' g \<or> suffix ''.tif'' g) \<and> g \<in> set argv
                        \<and> fst (check_hex e (path_join d g) w0) = Inr True \<longrightarrow>
           (\<forall>f\<in>set rest. pdf_path_of (path_join d g) \<noteq> path_join d f)"
    using Cons.prems(3) by simp
  show ?case
  proof (cases "suffix ''.tiff'' fname \<or> suffix ''.tif'' fname")
    case False
    with Cons.prems(1) have run: "convert_all C e argv d rest mids w = (Inr mids', w')"
      by simp
    have same: "\<forall>f\<in>set rest. lookup w (path_join d f) = lookup w0 (path_join d f)"
      using Cons.prems(2) by simp
    from Cons.IH[OF run same clash_rest] False show ?thesis by simp
  next
    case True
    obtain r w1 where ch: "check_hex e (path_join d fname) w = (r, w1)"
      by (cases "check_hex e (path_join d fname) w")
    have f1: "files w1 = files w"
      using check_hex_files[of e "path_join d fname" w] ch by simp
    have verdict: "fst (check_hex e (path_join d fname) w0) = r"
      using check_hex_lookup[of w "path_join d fname" w0 e] Cons.prems(2) ch by simp
    show ?thesis
    proof (cases r)
      case (Inl err)
      with Cons.prems(1) True ch show ?thesis by simp
    next
      case (Inr ok)
      show ?thesis
      proof (cases "ok \<and> fname \<in> set argv")
        case False
        with Cons.prems(1) True ch Inr have run: "convert_all C e argv d rest mids w1 = (Inr mids', w')"
          by auto
        have same: "\<forall>f\<in>set rest. lookup w1 (path_join d f) = lookup w0 (path_join d f)"
          using Cons.prems(2) lookup_files_cong[OF f1] by simp
        from Cons.IH[OF run same clash_rest] False verdict Inr show ?thesis by auto
      next
        case conv: True
        obtain r2 w2 where tp: "tiff_to_pdf C (path_join d fname) w1 = (r2, w2)"
          by (cases "tiff_to_pdf C (path_join d fname) w1")
        show ?thesis
        proof (cases r2)
          case (Inl err)
          with Cons.prems(1) True ch Inr conv tp show ?thesis by simp
        next
          case r2: (Inr pdf)
          with Cons.prems(1) True ch Inr conv tp
          have run: "convert_all C e argv d rest (mids @ [pdf]) w2 = (Inr mids', w')"
            by simp
          from tiff_to_pdf_Inr[OF tp[unfolded r2]]
          have pdf: "pdf = pdf_path_of (path_join d fname)"
            and fr: "\<forall>p. p \<noteq> pdf \<longrightarrow> lookup w2 p = lookup w1 p" by blast+
          have same: "\<forall>f\<in>set rest. lookup w2 (path_join d f) = lookup w0 (path_join d f)"
          proof
            fix f assume f: "f \<in> set rest"
            from conv verdict Inr have "fname \<in> set argv"
              and "fst (check_hex e (path_join d fname) w0) = Inr True" by simp_all
            with Cons.prems(3) True pdf f have "path_join d f \<noteq> pdf" by auto
            with fr have "lookup w2 (path_join d f) = lookup w1 (path_join d f)" by simp
            also have "\<dots> = lookup w (path_join d f)" by (rule lookup_files_cong[OF f1])
            also have "\<dots> = lookup w0 (path_join d f)" using Cons.prems(2) f by simp
            finally show "lookup w2 (path_join d f) = lookup w0 (path_join d f)" .
          qed
          from Cons.IH[OF run same clash_rest] True conv verdict Inr pdf show ?thesis by simp
        qed
      qed
    qed
  qed
qed

lemma main_success:
  assumes "main C e argv now w = (Inr u, w')"
  obtains mids w2 merger out w4 w5 where
    "convert_all C e argv input_path
       (listdir input_path (print ''~~~> Launching TIFF to PDF Converter.'' w)) []
       (print ''~~~> Launching TIFF to PDF Converter.'' w) = (Inr mids, w2)"
    and "merge_all C mids [] w2 = Inr merger"
    and "merger_write C merger = Some out"
    and "remove_middle mids
           (print (outfile_name C argv now @ '' created succesfully in output path.'')
              (write_file (outfile_path C argv now) out w2)) = (Inr (), w4)"
    and "remove_origin argv input_path (listdir input_path w4) w4 = (Inr (), w5)"
    and "files w' = files w5"
    and "2 \<le> length argv"
  using assms unfolding main_def Let_def
  by (auto split: if_splits prod.splits sum.splits option.splits)

subsection \<open>Selection and cleanup\<close>

text \<open>
  C4, as amended. When the conversion loop ends without an error, the files it
  has converted are, in the order of the directory listing, exactly the listed
  names that end in \<^verbatim>\<open>.tiff\<close> or \<^verbatim>\<open>.tif\<close>, are elements of the argument
  vector \<^verbatim>\<open>sys.argv\<close> (the caller's file names, and also the program name and
  the job identifier) and are accepted by the validator. The validator's verdict
  is the one on the file as it is when the loop starts, given that the
  intermediate path of no such file is the path of a listed entry.
\<close>

theorem convert_all_filter:
  assumes "convert_all C e argv d listing [] w = (Inr mids, w')"
    and "\<forall>g\<in>set listing. (suffix ''.tiff'' g \<or> suffix ''.tif'' g) \<and> g \<in> set argv
                             \<and> fst (check_hex e (path_join d g) w) = Inr True \<longrightarrow>
           (\<forall>f\<in>set listing. pdf_path_of (path_join d g) \<noteq> path_join d f)"
  shows "mids = map (\<lambda>f. pdf_path_of (path_join d f))
           (filter (\<lambda>f. (suffix ''.tiff'' f \<or> suffix ''.tif'' f) \<and> f \<in> set argv
                         \<and> fst (check_hex e (path_join d f) w) = Inr True) listing)"
  using convert_all_selects [OF assms(1) _ assms(2)] by simp

theorem convert_all_filter_witness:
  "fst (convert_all toy_codec Little [''tiff2pdf.py'', ''job'', ''a.tiff'', ''z.txt'', ''c.tif'', ''b.tif'']
            input_path (listdir input_path three_scans) [] three_scans)
     = Inr (map (\<lambda>f. pdf_path_of (path_join input_path f))
              (filter (\<lambda>f. (suffix ''.tiff'' f \<or> suffix ''.tif'' f)
                            \<and> f \<in> set [''tiff2pdf.py'', ''job'', ''a.tiff'', ''z.txt'', ''c.tif'', ''b.tif'']
                            \<and> fst (check_hex Little (path_join input_path f) three_scans) = Inr True)
                 (listdir input_path three_scans)))
   \<and> fst (convert_all toy_codec Little [''tiff2pdf.py'', ''job'', ''a.tiff'', ''z.txt'', ''c.tif'', ''b.tif'']
            input_path (listdir input_path three_scans) [] three_scans)
     = Inr [''pdf/input/b.pdf'', ''pdf/input/a.pdf'']
   \<and> listdir input_path three_scans = [''b.tif'', ''z.txt'', ''c.tif'', ''c.pdf'', ''a.tiff'']"
proof -
  let ?argv = "[''tiff2pdf.py'', ''job'', ''a.tiff'', ''z.txt'', ''c.tif'', ''b.tif'']"
  let ?r = "convert_all toy_codec Little ?argv input_path (listdir input_path three_scans) [] three_scans"
  have ls: "listdir input_path three_scans = [''b.tif'', ''z.txt'', ''c.tif'', ''c.pdf'', ''a.tiff'']"
    by code_simp
  have res: "fst ?r = Inr [''pdf/input/b.pdf'', ''pdf/input/a.pdf'']"
    by code_simp
  then have run: "?r = (Inr [''pdf/input/b.pdf'', ''pdf/input/a.pdf''], snd ?r)"
    by (metis prod.collapse)
  have clash: "\<forall>g\<in>set (listdir input_path three_scans). (suffix ''.tiff'' g \<or> suffix ''.tif'' g)
             \<and> g \<in> set ?argv
             \<and> fst (check_hex Little (path_join input_path g) three_scans) = Inr True \<longrightarrow>
           (\<forall>f\<in>set (listdir input_path three_scans). pdf_path_of (path_join input_path g) \<noteq> path_join input_path f)"
    by code_simp
  from convert_all_filter [OF run clash]
  have sel: "[''pdf/input/b.pdf'', ''pdf/input/a.pdf''] = map (\<lambda>f. pdf_path_of (path_join input_path f))
           (filter (\<lambda>f. (suffix ''.tiff'' f \<or> suffix ''.tif'' f) \<and> f \<in> set ?argv
                         \<and> fst (check_hex Little (path_join input_path f) three_scans) = Inr True)
              (listdir input_path three_scans))" .
  have first: "fst ?r = Inr (map (\<lambda>f. pdf_path_of (path_join input_path f))
           (filter (\<lambda>f. (suffix ''.tiff'' f \<or> suffix ''.tif'' f) \<and> f \<in> set ?argv
                         \<and> fst (check_hex Little (path_join input_path f) three_scans) = Inr True)
              (listdir input_path three_scans)))"
    by (rule trans [OF res arg_cong [where f = Inr, OF sel]])
  from first res ls show ?thesis
    by (intro conjI)
qed

text \<open>
  Against C4 as stated: with \<^verbatim>\<open>x.tif\<close> as the job identifier and no file name
  given by the caller, \<^verbatim>\<open>x.tif\<close> is converted.
\<close>

theorem convert_all_filter_counterexample:
  "fst (convert_all toy_codec Little [''tiff2pdf.py'', ''x.tif''] input_path
          (listdir input_path two_scans) [] two_scans) = Inr [''pdf/input/x.pdf'']
   \<and> ''x.tif'' \<notin> set (drop 2 [''tiff2pdf.py'', ''x.tif''])"
  by code_simp

text \<open>
  C2, as amended. After a run that reaches \<^verbatim>\<open>quit()\<close>, every intermediate PDF
  of the conversion step is gone, and so is every file of the input directory
  whose name is an element of the argument vector \<^verbatim>\<open>sys.argv\<close>, whether it was
  converted or not. Every path that is neither an intermediate, nor the path of
  such a name in the input directory, nor the path of the merged output, holds
  what it held before the run.
\<close>

theorem cleanup_scope:
  assumes "main C e argv now w = (Inr (), w')"
  shows "(\<forall>p \<in> set (middle_files C e argv w). lookup w' p = None)
         \<and> (\<forall>n \<in> set (listdir input_path w). n \<in> set argv \<longrightarrow> lookup w' (path_join input_path n) = None)
         \<and> (\<forall>p. p \<notin> set (middle_files C e argv w)
                  \<and> p \<notin> path_join input_path ` (set (listdir input_path w) \<inter> set argv)
                  \<and> p \<noteq> outfile_path C argv now \<longrightarrow> lookup w' p = lookup w p)"
proof -
  let ?w1 = "print ''~~~> Launching TIFF to PDF Converter.'' w"
  from assms obtain mids w2 merger out w4 w5 where
    conv: "convert_all C e argv input_path (listdir input_path ?w1) [] ?w1 = (Inr mids, w2)"
    and rm: "remove_middle mids
           (print (outfile_name C argv now @ '' created succesfully in output path.'')
              (write_file (outfile_path C argv now) out w2)) = (Inr (), w4)"
    and ro: "remove_origin argv input_path (listdir input_path w4) w4 = (Inr (), w5)"
    and fin: "files w' = files w5"
    by (rule main_success)
  have mf: "middle_files C e argv w = mids"
    by (simp add: middle_files_def Let_def conv)
  have l5: "\<And>p. lookup w' p = lookup w5 p"
    by (rule lookup_files_cong[OF fin])
  have l45: "\<And>p. lookup w5 p =
      (if p \<in> path_join input_path ` (set (listdir input_path w4) \<inter> set argv) then None else lookup w4 p)"
    by (rule remove_origin_ok[OF ro])
  have l34: "\<And>p. lookup w4 p =
      (if p \<in> set mids then None
       else if p = outfile_path C argv now then Some out else lookup w2 p)"
    using remove_middle_ok[OF rm] by simp
  have l12: "\<And>p. p \<notin> set mids \<Longrightarrow> lookup w2 p = lookup w p"
    using convert_all_frame[OF conv] by simp
  have a: "\<forall>p \<in> set mids. lookup w' p = None"
    by (simp add: l5 l45 l34)
  have b: "\<forall>n \<in> set (listdir input_path w). n \<in> set argv \<longrightarrow> lookup w' (path_join input_path n) = None"
  proof (intro ballI impI)
    fix n assume n: "n \<in> set (listdir input_path w)" and m: "n \<in> set argv"
    show "lookup w' (path_join input_path n) = None"
    proof (cases "lookup w4 (path_join input_path n) = None")
      case True
      then show ?thesis by (simp add: l5 l45)
    next
      case False
      with n have "n \<in> set (listdir input_path w4)"
        by (simp add: in_listdir_input)
      with m show ?thesis by (simp add: l5 l45)
    qed
  qed
  have c: "\<forall>p. p \<notin> set mids \<and> p \<notin> path_join input_path ` (set (listdir input_path w) \<inter> set argv)
                  \<and> p \<noteq> outfile_path C argv now \<longrightarrow> lookup w' p = lookup w p"
  proof (intro allI impI)
    fix p assume p: "p \<notin> set mids \<and> p \<notin> path_join input_path ` (set (listdir input_path w) \<inter> set argv)
                      \<and> p \<noteq> outfile_path C argv now"
    then have same: "lookup w4 p = lookup w p"
      by (simp add: l34 l12)
    have "p \<notin> path_join input_path ` (set (listdir input_path w4) \<inter> set argv)"
    proof
      assume "p \<in> path_join input_path ` (set (listdir input_path w4) \<inter> set argv)"
      then obtain n where n: "n \<in> set (listdir input_path w4)" "n \<in> set argv" "p = path_join input_path n"
        by auto
      from n(1,3) same have "n \<in> set (listdir input_path w)"
        by (simp add: in_listdir_input)
      with n(2,3) p show False
        by auto
    qed
    with same show "lookup w' p = lookup w p"
      by (simp add: l5 l45)
  qed
  from a b c show ?thesis
    by (simp only: mf) 
qed

theorem cleanup_scope_witness:
  "lookup (snd (main toy_codec Little [''tiff2pdf.py'', ''job'', ''x.tif''] ''2026_01_01_00_00_00'' two_scans))
      ''pdf/input/x.pdf'' = None
   \<and> lookup (snd (main toy_codec Little [''tiff2pdf.py'', ''job'', ''x.tif''] ''2026_01_01_00_00_00'' two_scans))
      (path_join input_path ''x.tif'') = None
   \<and> lookup (snd (main toy_codec Little [''tiff2pdf.py'', ''job'', ''x.tif''] ''2026_01_01_00_00_00'' two_scans))
      ''pdf/input/notes.txt'' = lookup two_scans ''pdf/input/notes.txt''"
proof -
  let ?argv = "[''tiff2pdf.py'', ''job'', ''x.tif'']"
  let ?r = "main toy_codec Little ?argv ''2026_01_01_00_00_00'' two_scans"
  have "fst ?r = Inr ()"
    by code_simp
  then have run: "?r = (Inr (), snd ?r)"
    by (metis prod.collapse)
  have mf: "''pdf/input/x.pdf'' \<in> set (middle_files toy_codec Little ?argv two_scans)"
    by code_simp
  have ls: "''x.tif'' \<in> set (listdir input_path two_scans)"
    by code_simp
  have arg: "''x.tif'' \<in> set ?argv"
    by simp
  have other: "''pdf/input/notes.txt'' \<notin> set (middle_files toy_codec Little ?argv two_scans)
      \<and> ''pdf/input/notes.txt'' \<notin> path_join input_path ` (set (listdir input_path two_scans) \<inter> set ?argv)
      \<and> ''pdf/input/notes.txt'' \<noteq> outfile_path toy_codec ?argv ''2026_01_01_00_00_00''"
    by code_simp
  note scope = cleanup_scope [OF run]
  from scope mf have a: "lookup (snd ?r) ''pdf/input/x.pdf'' = None"
    by blast
  from scope ls arg have b: "lookup (snd ?r) (path_join input_path ''x.tif'') = None"
    by blast
  from scope other have c: "lookup (snd ?r) ''pdf/input/notes.txt'' = lookup two_scans ''pdf/input/notes.txt''"
    by blast
  from a b c show ?thesis
    by (intro conjI)
qed

text \<open>
  Against C2 as stated: a file of the input directory named like the script is
  neither in the manifest nor an intermediate, and the run deletes it.
\<close>

theorem cleanup_scope_counterexample:
  "fst (main toy_codec Little [''tiff2pdf.py'', ''job'', ''x.tif''] ''2026_01_01_00_00_00'' scan_and_script)
     = Inr ()
   \<and> lookup scan_and_script ''pdf/input/tiff2pdf.py'' = Some [0x23, 0x21]
   \<and> lookup (snd (main toy_codec Little [''tiff2pdf.py'', ''job'', ''x.tif''] ''2026_01_01_00_00_00''
                    scan_and_script)) ''pdf/input/tiff2pdf.py'' = None
   \<and> ''tiff2pdf.py'' \<notin> set (drop 1 [''tiff2pdf.py'', ''job'', ''x.tif''])
   \<and> ''pdf/input/tiff2pdf.py''
        \<notin> set (middle_files toy_codec Little [''tiff2pdf.py'', ''job'', ''x.tif''] scan_and_script)"
  by code_simp

text \<open>
  C10. The membership test is against the whole of \<^verbatim>\<open>sys.argv\<close>. With
  \<^verbatim>\<open>x.tif\<close> as the job identifier and no file name given by the caller, the
  valid TIFF \<^verbatim>\<open>x.tif\<close> is converted, merged into the output and deleted; the
  same happens to \<^verbatim>\<open>x.tiff\<close> when the program name is \<^verbatim>\<open>x.tiff\<close>.
\<close>

theorem job_identifier_selects_file:
  "''x.tif'' \<notin> set (drop 2 [''tiff2pdf.py'', ''x.tif''])
   \<and> fst (check_hex Little ''pdf/input/x.tif'' two_scans) = Inr True
   \<and> middle_files toy_codec Little [''tiff2pdf.py'', ''x.tif''] two_scans = [''pdf/input/x.pdf'']
   \<and> fst (main toy_codec Little [''tiff2pdf.py'', ''x.tif''] ''2026_01_01_00_00_00'' two_scans) = Inr ()
   \<and> lookup (snd (main toy_codec Little [''tiff2pdf.py'', ''x.tif''] ''2026_01_01_00_00_00'' two_scans))
        ''pdf/output/x.tif_merged_2026_01_01_00_00_00.pdf'' = Some (pdf_magic @ [1, 2])
   \<and> lookup (snd (main toy_codec Little [''tiff2pdf.py'', ''x.tif''] ''2026_01_01_00_00_00'' two_scans))
        ''pdf/input/x.tif'' = None
   \<and> ''x.tiff'' \<notin> set (drop 2 [''x.tiff'', ''job''])
   \<and> middle_files toy_codec Little [''x.tiff'', ''job''] two_scans = [''pdf/input/x.pdf'']
   \<and> lookup (snd (main toy_codec Little [''x.tiff'', ''job''] ''2026_01_01_00_00_00'' two_scans))
        ''pdf/input/x.tiff'' = None"
  by code_simp

end
